theory Spec2Isabelle
  imports Main "HOL-Library.Sublist"
begin

section \<open>Text, bytes and the library functions the collector calls\<close>

text \<open>
  The program is one Python function, \<open>generate_arcade_project_files\<close>, that opens
  \<open>arcade_project_complete.txt\<close> in the working directory, walks the working directory
  with \<open>os.walk('.')\<close> and appends one text block per file it accepts.

  Conventions of the model:
  \<^item> \<open>bytes\<close> are the raw bytes of a file, a list of 8-bit characters.
  \<^item> \<open>str\<close> is a Python string. It is represented by its UTF-8 encoding, so that
    decoding a well-formed UTF-8 file and writing a string to the UTF-8 encoded sink
    are both the identity on the byte level, and the sink of the model is the byte
    content of the output file. Every string the program handles is encodable: file
    content comes out of the strict UTF-8 decoder or of the Latin-1 decoder, and entry
    names are taken to be well-formed text.
  \<^item> The platform is POSIX: the path separator is \<open>/\<close> and a written line feed stays
    a line feed.
  \<^item> The console is the list of the strings handed to \<open>print\<close>; printing cannot fail.
\<close>

type_synonym bytes = string
type_synonym str = string

definition LF :: char where "LF = CHR 0x0A"
definition CR :: char where "CR = CHR 0x0D"
definition DQ :: char where "DQ = CHR 0x22"

subsection \<open>Decoding\<close>

definition cont :: "nat \<Rightarrow> bool" where
  "cont b = (0x80 \<le> b \<and> b \<le> 0xBF)"

text \<open>
  The strict UTF-8 decoder of Python accepts exactly the well-formed sequences of
  RFC 3629: no overlong forms, no surrogates, nothing above U+10FFFF.
\<close>

fun utf8_wellformed :: "nat list \<Rightarrow> bool" where
  "utf8_wellformed [] = True"
| "utf8_wellformed (b0 # bs) =
    (if b0 < 0x80 then utf8_wellformed bs
     else if 0xC2 \<le> b0 \<and> b0 \<le> 0xDF then
       (case bs of
          b1 # r \<Rightarrow> cont b1 \<and> utf8_wellformed r
        | _ \<Rightarrow> False)
     else if 0xE0 \<le> b0 \<and> b0 \<le> 0xEF then
       (case bs of
          b1 # b2 # r \<Rightarrow>
            (if b0 = 0xE0 then 0xA0 \<le> b1 \<and> b1 \<le> 0xBF
             else if b0 = 0xED then 0x80 \<le> b1 \<and> b1 \<le> 0x9F
             else cont b1)
            \<and> cont b2 \<and> utf8_wellformed r
        | _ \<Rightarrow> False)
     else if 0xF0 \<le> b0 \<and> b0 \<le> 0xF4 then
       (case bs of
          b1 # b2 # b3 # r \<Rightarrow>
            (if b0 = 0xF0 then 0x90 \<le> b1 \<and> b1 \<le> 0xBF
             else if b0 = 0xF4 then 0x80 \<le> b1 \<and> b1 \<le> 0x8F
             else cont b1)
            \<and> cont b2 \<and> cont b3 \<and> utf8_wellformed r
        | _ \<Rightarrow> False)
     else False)"

definition utf8_decode :: "bytes \<Rightarrow> str option" where
  "utf8_decode bs = (if utf8_wellformed (map of_char bs) then Some bs else None)"

text \<open>
  Latin-1 maps the byte \<open>b\<close> to the code point \<open>b\<close>; in the representation of \<open>str\<close>
  a code point below 128 is one byte and one from 128 to 255 is two.
\<close>

definition latin1_char :: "char \<Rightarrow> str" where
  "latin1_char c =
     (let b = (of_char c :: nat)
      in if b < 0x80 then [c]
         else [char_of (0xC0 + b div 64), char_of (0x80 + b mod 64)])"

definition latin1_decode :: "bytes \<Rightarrow> str" where
  "latin1_decode bs = concat (map latin1_char bs)"


text \<open>
  A file opened in text mode with the default \<open>newline=None\<close> is read with universal
  newlines: \<open>\r\n\<close> and a lone \<open>\r\<close> both arrive as \<open>\n\<close>.
\<close>

fun universal_newlines :: "str \<Rightarrow> str" where
  "universal_newlines [] = []"
| "universal_newlines [c] = [if c = CR then LF else c]"
| "universal_newlines (c # d # cs) =
     (if c = CR then
        (if d = LF then LF # universal_newlines cs
         else LF # universal_newlines (d # cs))
      else c # universal_newlines (d # cs))"

subsection \<open>Strings and paths\<close>

text \<open>Python's \<open>sub in s\<close> on strings.\<close>

fun contains :: "'a list \<Rightarrow> 'a list \<Rightarrow> bool" where
  "contains sub [] = (sub = [])"
| "contains sub (y # ys) = (prefix sub (y # ys) \<or> contains sub ys)"

text \<open>Python's \<open>s.rfind(c)\<close> for one character: the last index of \<open>c\<close>, if any.\<close>

fun rfind :: "'a \<Rightarrow> 'a list \<Rightarrow> nat option" where
  "rfind c [] = None"
| "rfind c (x # xs) =
     (case rfind c xs of
        Some i \<Rightarrow> Some (Suc i)
      | None \<Rightarrow> if x = c then Some 0 else None)"

text \<open>
  \<open>PurePath.suffix\<close> of a path whose final component is \<open>name\<close>: the part from the
  last dot on, unless that dot is the first or the last character of the name.
\<close>

definition path_suffix :: "str \<Rightarrow> str" where
  "path_suffix name =
     (case rfind CHR ''.'' name of
        Some i \<Rightarrow> if 0 < i \<and> i < length name - 1 then drop i name else []
      | None \<Rightarrow> [])"

text \<open>\<open>os.path.join(root, d)\<close> as \<open>os.walk\<close> uses it on the paths it builds.\<close>

definition path_join :: "str \<Rightarrow> str \<Rightarrow> str" where
  "path_join root d = root @ ''/'' @ d"

text \<open>
  \<open>str((Path(root) / file).relative_to('.'))\<close> for a root handed out by
  \<open>os.walk('.')\<close>, which is \<open>.\<close> itself or starts with \<open>./\<close>: pathlib drops the
  leading \<open>.\<close> component.
\<close>

definition rel_path :: "str \<Rightarrow> str \<Rightarrow> str" where
  "rel_path root name = (if root = ''.'' then name else drop 2 root @ ''/'' @ name)"

text \<open>Python's \<open>str(n)\<close> for a natural number.\<close>

definition digit_char :: "nat \<Rightarrow> char" where
  "digit_char d = char_of (48 + d)"

fun str_of_nat :: "nat \<Rightarrow> str" where
  "str_of_nat n =
     (if n < 10 then [digit_char n] else str_of_nat (n div 10) @ [digit_char (n mod 10)])"

declare str_of_nat.simps [simp del]

section \<open>The file system and the run state\<close>

text \<open>
  What the program can observe of a file: whether \<open>Path.exists\<close> finds it, what the
  first \<open>open\<close>/\<open>read\<close> (UTF-8) delivers and what the second one (Latin-1) delivers,
  each read being either the message of the \<open>OSError\<close> raised or the bytes of the file.
  \<open>Sink\<close> is the directory entry of the output file while the program holds it open
  for writing: reading it delivers what has reached the disk so far.
  The entries are regular files or links to them, \<open>Path.exists\<close> answers yes or no, and
  the three observations are independent, since the file may change between them.
\<close>

datatype py_error = UnicodeDecodeError | OSError str

datatype file_entry =
    Regular (fexists: bool) (read1: "str + bytes") (read2: "str + bytes")
  | Sink

text \<open>A file that stays as it is while the program runs.\<close>

definition stable :: "bytes \<Rightarrow> file_entry" where
  "stable bs = Regular True (Inr bs) (Inr bs)"

text \<open>
  A directory as \<open>os.walk\<close> lists it: the entries that are not directories and the
  subdirectories, each in the order of the underlying directory scan.
\<close>

datatype dir = Dir (files: "(str \<times> file_entry) list") (subdirs: "(str \<times> dir) list")

text \<open>
  The environment of one run: the error that opening the output file for writing
  raises, if any; the position in the listing of the working directory at which a
  newly created output file shows up; and the buffering of the output stream, as the
  number of bytes that have reached the disk after a given sequence of writes.
\<close>

record env =
  open_error :: "str option"
  create_at :: nat
  flushed :: "str list \<Rightarrow> nat"

text \<open>
  The state of a run: the arguments of the \<open>outfile.write\<close> calls so far, the counter
  \<open>file_count\<close>, and the strings printed so far.
\<close>

record state =
  sink :: "str list"
  file_count :: nat
  console :: "str list"

definition output_file :: str where
  "output_file = ''arcade_project_complete.txt''"

definition binary_suffixes :: "str list" where
  "binary_suffixes = [''.png'', ''.jpg'', ''.jpeg'', ''.gif'', ''.ico'', ''.pem'']"

definition check_mark :: str where
  "check_mark = [CHR 0xE2, CHR 0x9C, CHR 0x93]"

definition outfile_write :: "str \<Rightarrow> state \<Rightarrow> state" where
  "outfile_write x s = s\<lparr>sink := sink s @ [x]\<rparr>"

definition print :: "str \<Rightarrow> state \<Rightarrow> state" where
  "print x s = s\<lparr>console := console s @ [x]\<rparr>"

text \<open>The bytes of the output file that a reader finds on disk during the run.\<close>

definition on_disk :: "env \<Rightarrow> state \<Rightarrow> bytes" where
  "on_disk env s = take (flushed env (sink s)) (concat (sink s))"

definition file_exists :: "file_entry \<Rightarrow> bool" where
  "file_exists f = (case f of Regular e _ _ \<Rightarrow> e | Sink \<Rightarrow> True)"

text \<open>\<open>open(file_path, 'r', ...)\<close> followed by the raw read; \<open>first\<close> tells the two attempts apart.\<close>

definition read_bytes :: "env \<Rightarrow> state \<Rightarrow> bool \<Rightarrow> file_entry \<Rightarrow> py_error + bytes" where
  "read_bytes env s first f =
     (case f of
        Sink \<Rightarrow> Inr (on_disk env s)
      | Regular _ r1 r2 \<Rightarrow>
          (case (if first then r1 else r2) of
             Inl msg \<Rightarrow> Inl (OSError msg)
           | Inr bs \<Rightarrow> Inr bs))"

definition read_utf8 :: "env \<Rightarrow> state \<Rightarrow> file_entry \<Rightarrow> py_error + str" where
  "read_utf8 env s f =
     (case read_bytes env s True f of
        Inl e \<Rightarrow> Inl e
      | Inr bs \<Rightarrow>
          (case utf8_decode bs of
             None \<Rightarrow> Inl UnicodeDecodeError
           | Some t \<Rightarrow> Inr (universal_newlines t)))"

definition read_latin1 :: "env \<Rightarrow> state \<Rightarrow> file_entry \<Rightarrow> py_error + str" where
  "read_latin1 env s f =
     (case read_bytes env s False f of
        Inl e \<Rightarrow> Inl e
      | Inr bs \<Rightarrow> Inr (universal_newlines (latin1_decode bs)))"

section \<open>The collector\<close>

text \<open>The four writes of one block (source lines 46 to 50 and 60 to 64).\<close>

definition header :: "str \<Rightarrow> str" where
  "header rel = ''My '' @ rel @ '':'' @ [LF, LF]"

definition quote_open :: str where
  "quote_open = [DQ] @ [LF]"

definition quote_close :: str where
  "quote_close = [LF, DQ, LF, LF]"

definition write_block :: "str \<Rightarrow> str \<Rightarrow> state \<Rightarrow> state" where
  "write_block rel content s =
     (let s1 = outfile_write (header rel) s;
          s2 = outfile_write quote_open s1;
          s3 = outfile_write content s2;
          s4 = outfile_write quote_close s3
      in s4\<lparr>file_count := file_count s4 + 1\<rparr>)"

text \<open>The body of the outer \<open>try\<close> and the body of the inner one.\<close>

definition try_utf8 :: "env \<Rightarrow> str \<Rightarrow> file_entry \<Rightarrow> state \<Rightarrow> py_error + state" where
  "try_utf8 env rel f s =
     (case read_utf8 env s f of
        Inl e \<Rightarrow> Inl e
      | Inr content \<Rightarrow>
          Inr (print (check_mark @ '' Added: '' @ rel) (write_block rel content s)))"

definition try_latin1 :: "env \<Rightarrow> str \<Rightarrow> file_entry \<Rightarrow> state \<Rightarrow> py_error + state" where
  "try_latin1 env rel f s =
     (case read_latin1 env s f of
        Inl e \<Rightarrow> Inl e
      | Inr content \<Rightarrow>
          Inr (print (check_mark @ '' Added (latin-1): '' @ rel) (write_block rel content s)))"

text \<open>The body of \<open>for file in files\<close> (source lines 22 to 70).\<close>

definition process_file :: "env \<Rightarrow> str \<Rightarrow> str \<Rightarrow> file_entry \<Rightarrow> state \<Rightarrow> state" where
  "process_file env root name f s =
     (if name = ''package-lock.json'' then s
      else if \<not> file_exists f then s
      else
        let rel = rel_path root name in
        if path_suffix name \<in> set binary_suffixes
        then print (''Skipping binary file: '' @ rel) s
        else
          (case try_utf8 env rel f s of
             Inr s' \<Rightarrow> s'
           | Inl UnicodeDecodeError \<Rightarrow>
               (case try_latin1 env rel f s of
                  Inr s' \<Rightarrow> s'
                | Inl _ \<Rightarrow> print (''Skipping unreadable file: '' @ rel) s)
           | Inl (OSError msg) \<Rightarrow> print (''Error reading '' @ rel @ '': '' @ msg) s))"

fun process_files :: "env \<Rightarrow> str \<Rightarrow> (str \<times> file_entry) list \<Rightarrow> state \<Rightarrow> state" where
  "process_files env root [] s = s"
| "process_files env root ((name, f) # fs) s =
     process_files env root fs (process_file env root name f s)"

text \<open>
  \<open>for root, dirs, files in os.walk('.')\<close> with the loop body of source lines 13 to 70:
  top-down, the body runs on a directory before the walk descends into what the body
  left in \<open>dirs\<close>. On \<open>continue\<close> at line 16 the list \<open>dirs\<close> is left as it is.
\<close>

function walk :: "env \<Rightarrow> str \<Rightarrow> dir \<Rightarrow> state \<Rightarrow> state"
  and walk_dirs :: "env \<Rightarrow> str \<Rightarrow> (str \<times> dir) list \<Rightarrow> state \<Rightarrow> state" where
  "walk env root (Dir fs ds) s =
     (if contains ''node_modules'' root then walk_dirs env root ds s
      else walk_dirs env root (filter (\<lambda>d. fst d \<noteq> ''node_modules'') ds)
             (process_files env root fs s))"
| "walk_dirs env root [] s = s"
| "walk_dirs env root ((d, sub) # ds) s =
     walk_dirs env root ds (walk env (path_join root d) sub s)"
  by pat_completeness auto

termination
proof (relation "measure (case_sum (\<lambda>(e, r, t, s). size t)
                      (\<lambda>(e, r, ds, s). size_list (\<lambda>p. size (snd p)) ds))", goal_cases)
  have filter_le: "size_list f (filter P xs) \<le> size_list f xs"
    for f :: "str \<times> dir \<Rightarrow> nat" and P xs
    by (induction xs) auto
  have snd_le: "size_list (\<lambda>p. size (snd p)) ds \<le> size_list (size_prod (\<lambda>_. 0) size) ds"
    for ds :: "(str \<times> dir) list"
    by (induction ds) auto
  {
    case 1
    show ?case by simp
  next
    case (2 env root fs ds s)
    show ?case using snd_le [of ds] by simp
  next
    case (3 env root fs ds s)
    show ?case
      using snd_le [of ds]
        filter_le [of "\<lambda>p. size (snd p)" "\<lambda>d. fst d \<noteq> ''node_modules''" ds]
      by simp
  next
    case (4 env root d sub ds s)
    show ?case by simp
  next
    case (5 env root d sub ds s)
    show ?case by simp
  }
qed

text \<open>
  \<open>open(output_file, 'w', encoding='utf-8')\<close> in the working directory, before the
  walk starts: it fails if the environment says so or if the name is taken by a
  directory; otherwise the file is truncated where it is listed, or created.
  Either way the walk finds the entry of the open output file among the files of
  the working directory.
\<close>

definition open_sink :: "env \<Rightarrow> dir \<Rightarrow> py_error + dir" where
  "open_sink env t =
     (case open_error env of
        Some msg \<Rightarrow> Inl (OSError msg)
      | None \<Rightarrow>
          if output_file \<in> set (map fst (subdirs t))
          then Inl (OSError ''[Errno 21] Is a directory'')
          else if output_file \<in> set (map fst (files t))
          then Inr (Dir (map (\<lambda>(n, f). if n = output_file then (n, Sink) else (n, f)) (files t))
                        (subdirs t))
          else Inr (Dir (take (create_at env) (files t) @ [(output_file, Sink)]
                          @ drop (create_at env) (files t))
                        (subdirs t)))"

text \<open>The summary printed after the \<open>with\<close> block (source lines 72 to 83).\<close>

definition bullet :: str where
  "bullet = [CHR 0xE2, CHR 0x80, CHR 0xA2]"

definition total_line :: "nat \<Rightarrow> str" where
  "total_line n =
     [CHR 0xE2, CHR 0x9C, CHR 0x85] @ '' Total files processed: '' @ str_of_nat n"

definition summary_lines :: "nat \<Rightarrow> str list" where
  "summary_lines n =
     [[LF] @ [CHR 0xE2, CHR 0x9C, CHR 0x85] @ '' Output generated: '' @ output_file,
      total_line n,
      [LF] @ [CHR 0xF0, CHR 0x9F, CHR 0x93, CHR 0x81] @ '' Project structure processed:'',
      ''  '' @ bullet @ '' All root files'',
      ''  '' @ bullet @ '' src/ directory and all subdirectories'',
      ''  '' @ bullet @ '' public/ directory'',
      ''  '' @ bullet @ '' All configuration files'',
      [LF] @ [CHR 0xE2, CHR 0x9B, CHR 0x94] @ '' Files excluded:'',
      ''  '' @ bullet @ '' node_modules/ directory'',
      ''  '' @ bullet @ '' package-lock.json'',
      ''  '' @ bullet @ '' Binary image files (.png, .jpg, .jpeg, .gif, .ico)'',
      ''  '' @ bullet @ '' SSL certificate files (.pem)'']"

definition print_summary :: "state \<Rightarrow> state" where
  "print_summary s = fold print (summary_lines (file_count s)) s"

definition init_state :: state where
  "init_state = \<lparr>sink = [], file_count = 0, console = []\<rparr>"

text \<open>
  The whole function. \<open>Inl\<close> is the exception that leaves it; \<open>Inr\<close> is the state when
  it returns, the concatenation of \<open>sink\<close> being the content of the output file.
\<close>

definition generate_arcade_project_files :: "env \<Rightarrow> dir \<Rightarrow> py_error + state" where
  "generate_arcade_project_files env t =
     (case open_sink env t of
        Inl e \<Rightarrow> Inl e
      | Inr t' \<Rightarrow> Inr (print_summary (walk env ''.'' t' init_state)))"

section \<open>Notions of the specification\<close>

text \<open>
  The output document as a sequence of blocks: every block is four consecutive
  writes, of which the first is the header and the third the content.
\<close>

fun blocks_of :: "str list \<Rightarrow> (str \<times> str) list" where
  "blocks_of (h # q1 # c # q2 # rest) = (h, c) # blocks_of rest"
| "blocks_of _ = []"

definition block :: "str \<Rightarrow> str \<Rightarrow> str list" where
  "block rel content = [header rel, quote_open, content, quote_close]"

definition render :: "(str \<times> str) list \<Rightarrow> str list" where
  "render bs = concat (map (\<lambda>(h, c). [h, quote_open, c, quote_close]) bs)"

text \<open>The bytes of the output file once the run has closed it.\<close>

definition output_bytes :: "state \<Rightarrow> bytes" where
  "output_bytes s = concat (sink s)"

text \<open>
  The working directory as the next run finds it: the tree the walk saw, with the
  output file now an ordinary file holding \<open>out\<close>.
\<close>

definition tree_after :: "dir \<Rightarrow> bytes \<Rightarrow> dir" where
  "tree_after t out =
     Dir (map (\<lambda>(n, f). if n = output_file then (n, stable out) else (n, f)) (files t))
         (subdirs t)"

text \<open>Python's \<open>s.split(c)\<close> for one character.\<close>

fun split_on :: "'a \<Rightarrow> 'a list \<Rightarrow> 'a list list" where
  "split_on c [] = [[]]"
| "split_on c (x # xs) =
     (if x = c then [] # split_on c xs
      else (case split_on c xs of [] \<Rightarrow> [[x]] | p # ps \<Rightarrow> (x # p) # ps))"

text \<open>
  A relative path lies under a directory named \<open>d\<close> when one of its components
  before the last is \<open>d\<close>; its base name is the last component.
\<close>

definition under_dir :: "str \<Rightarrow> str \<Rightarrow> bool" where
  "under_dir d p = (d \<in> set (butlast (split_on CHR ''/'' p)))"

definition base_name :: "str \<Rightarrow> str" where
  "base_name p = last (split_on CHR ''/'' p)"

text \<open>Names of directory entries never contain the separator.\<close>

definition slash_free :: "str \<Rightarrow> bool" where
  "slash_free n = (CHR ''/'' \<notin> set n)"

text \<open>The names of all the files of a tree.\<close>

fun all_file_names :: "dir \<Rightarrow> str list" where
  "all_file_names (Dir fs ds) = map fst fs @ concat (map (\<lambda>d. all_file_names (snd d)) ds)"

text \<open>
  A state is well formed when its sink is a sequence of complete blocks, the counter is
  the number of these blocks, and every header satisfies \<open>P\<close>.
\<close>

definition well_formed :: "(str \<Rightarrow> bool) \<Rightarrow> state \<Rightarrow> bool" where
  "well_formed P s =
     (sink s = render (blocks_of (sink s))
      \<and> file_count s = length (blocks_of (sink s))
      \<and> list_all (\<lambda>b. P (fst b)) (blocks_of (sink s)))"

text \<open>An environment in which the sink opens, a new entry is listed first and nothing
  reaches the disk before the output file is closed (an output below the buffer size).\<close>

definition env0 :: env where
  "env0 = \<lparr>open_error = None, create_at = 0, flushed = (\<lambda>_. 0)\<rparr>"

text \<open>Example trees.\<close>

definition tree_lock_and_modules :: dir where
  "tree_lock_and_modules =
     Dir [(''package-lock.json'', stable ''{}''), (''a.txt'', stable ''hi'')]
         [(''node_modules'', Dir [(''b.txt'', stable ''b'')] [])]"

definition tree_errors :: dir where
  "tree_errors =
     Dir [(''bad.bin'', stable [CHR 0xFF, CHR ''A'']),
          (''gone.txt'', Regular False (Inr ''x'') (Inr ''x'')),
          (''denied.txt'', Regular True (Inl ''[Errno 13] Permission denied'')
                             (Inl ''[Errno 13] Permission denied'')),
          (''flaky.txt'', Regular True (Inr [CHR 0xFF]) (Inl ''[Errno 5] Input/output error''))]
         []"



section \<open>Basic facts\<close>

lemma path_suffix_output_file: "path_suffix output_file = ''.txt''"
  by (simp add: path_suffix_def output_file_def)

lemma output_file_not_binary: "path_suffix output_file \<notin> set binary_suffixes"
  by (simp add: path_suffix_output_file binary_suffixes_def)

lemma output_file_not_lock: "output_file \<noteq> ''package-lock.json''"
  by (simp add: output_file_def)

lemma utf8_decode_Nil: "utf8_decode [] = Some []"
  by (simp add: utf8_decode_def)

lemma console_print_summary:
  "console (print_summary s) = console s @ summary_lines (file_count s)"
  by (simp add: print_summary_def summary_lines_def print_def)

lemma sink_print_summary: "sink (print_summary s) = sink s"
  by (simp add: print_summary_def summary_lines_def print_def)

lemma file_count_print_summary: "file_count (print_summary s) = file_count s"
  by (simp add: print_summary_def summary_lines_def print_def)

lemma total_line_in_summary: "total_line n \<in> set (summary_lines n)"
  by (simp add: summary_lines_def)

lemma blocks_of_block: "blocks_of (block p c) = [(header p, c)]"
  by (simp add: block_def)

lemma open_error_env0: "open_error env0 = None"
  by (simp add: env0_def)

text \<open>
  The first thing the walk meets in a working directory that was empty is the output
  file itself, still empty on disk whatever the buffering is, since nothing has been
  written yet.
\<close>

lemma process_sink_first:
  "process_file env ''.'' output_file Sink init_state =
     print (check_mark @ '' Added: '' @ output_file)
       (init_state\<lparr>sink := block output_file [], file_count := 1\<rparr>)"
  by (simp add: process_file_def output_file_not_lock file_exists_def output_file_not_binary
      rel_path_def try_utf8_def read_utf8_def read_bytes_def on_disk_def init_state_def
      utf8_decode_Nil write_block_def outfile_write_def print_def block_def Let_def)

lemma open_sink_empty_root:
  "open_error env = None \<Longrightarrow> open_sink env (Dir [] []) = Inr (Dir [(output_file, Sink)] [])"
  by (simp add: open_sink_def)

subsection \<open>Blocks and the invariant of the walk\<close>

lemma blocks_of_render_append: "blocks_of (render bs @ ys) = bs @ blocks_of ys"
  by (induction bs) (auto simp: render_def)

lemma blocks_of_render: "blocks_of (render bs) = bs"
  using blocks_of_render_append [of bs "[]"] by simp

lemma render_append: "render (bs @ cs) = render bs @ render cs"
  by (simp add: render_def)

lemma render_single: "render [(header p, c)] = block p c"
  by (simp add: render_def block_def)

lemma well_formed_init: "well_formed P init_state"
  by (simp add: well_formed_def init_state_def render_def)

lemma well_formed_block:
  assumes "well_formed P s" and "P (header p)"
  shows "well_formed P (s\<lparr>sink := sink s @ block p c, file_count := Suc (file_count s)\<rparr>)"
proof -
  let ?bs = "blocks_of (sink s)"
  have s: "sink s = render ?bs" using assms(1) by (simp add: well_formed_def)
  have "sink s @ block p c = render (?bs @ [(header p, c)])"
    using s by (simp add: render_append render_single)
  then have b: "blocks_of (sink s @ block p c) = ?bs @ [(header p, c)]"
    by (simp add: blocks_of_render)
  show ?thesis
    using assms b s by (simp add: well_formed_def render_append render_single)
qed

lemma well_formed_print: "well_formed P (print x s) = well_formed P s"
  by (simp add: well_formed_def print_def)

lemma write_block_eq:
  "write_block rel c s = s\<lparr>sink := sink s @ block rel c, file_count := file_count s + 1\<rparr>"
  by (simp add: write_block_def outfile_write_def block_def Let_def)

lemma process_file_effect:
  "process_file env root name f s = s
   \<or> (\<exists>x. process_file env root name f s = print x s)
   \<or> (name \<noteq> ''package-lock.json'' \<and>
      (\<exists>x c. process_file env root name f s =
         print x (s\<lparr>sink := sink s @ block (rel_path root name) c,
                    file_count := file_count s + 1\<rparr>)))"
  by (auto simp: process_file_def try_utf8_def try_latin1_def write_block_eq Let_def
      split: sum.splits py_error.splits)


lemma process_file_well_formed:
  assumes "well_formed P s"
    and "name \<noteq> ''package-lock.json'' \<Longrightarrow> P (header (rel_path root name))"
  shows "well_formed P (process_file env root name f s)"
  using process_file_effect [of env root name f s] assms
  by (auto simp: well_formed_print well_formed_block)

lemma process_files_well_formed:
  assumes "\<And>name. name \<in> set (map fst fs) \<Longrightarrow> name \<noteq> ''package-lock.json''
             \<Longrightarrow> P (header (rel_path root name))"
  shows "well_formed P s \<Longrightarrow> well_formed P (process_files env root fs s)"
  using assms
proof (induction fs arbitrary: s)
  case Nil
  then show ?case by simp
next
  case (Cons a fs)
  obtain name f where a: "a = (name, f)" by (cases a)
  have "well_formed P (process_file env root name f s)"
    using Cons.prems a by (intro process_file_well_formed) auto
  then show ?case
    using Cons.IH Cons.prems(2) a by simp
qed

lemma walk_well_formed:
  assumes P: "\<And>root name. \<not> contains ''node_modules'' root \<Longrightarrow> name \<noteq> ''package-lock.json''
                \<Longrightarrow> Q name \<Longrightarrow> P (header (rel_path root name))"
  shows "well_formed P s \<Longrightarrow> list_all Q (all_file_names t)
           \<Longrightarrow> well_formed P (walk env root t s)"
    and "well_formed P s \<Longrightarrow> list_all Q (concat (map (\<lambda>d. all_file_names (snd d)) ds))
           \<Longrightarrow> well_formed P (walk_dirs env root ds s)"
proof (induction env root t s and env root ds s rule: walk_walk_dirs.induct)
  case (1 env root fs ds s)
  show ?case
  proof (cases "contains ''node_modules'' root")
    case True
    then show ?thesis using 1 by simp
  next
    case False
    have fsQ: "\<And>name. name \<in> set (map fst fs) \<Longrightarrow> Q name"
      using 1(4) by (auto simp: list_all_iff)
    have wf: "well_formed P (process_files env root fs s)"
      using 1(3) False fsQ P by (intro process_files_well_formed) auto
    have "list_all Q (concat (map (\<lambda>d. all_file_names (snd d))
            (filter (\<lambda>d. fst d \<noteq> ''node_modules'') ds)))"
      using 1(4) by (fastforce simp: list_all_iff)
    then show ?thesis using 1(2) [OF False wf] False by simp
  qed
next
  case (2 env root s)
  then show ?case by simp
next
  case (3 env root d sub ds s)
  have a: "well_formed P (walk env (path_join root d) sub s)"
    using 3 by simp
  show ?case using 3(2) [OF a] 3(4) by simp
qed

lemma files_open_sink:
  assumes "open_sink env t = Inr t'"
  shows "set (map fst (files t')) \<subseteq> insert output_file (set (map fst (files t)))"
    and "subdirs t' = subdirs t"
proof -
  have a: "set (map fst (map (\<lambda>(n, f). if n = output_file then (n, Sink) else (n, f)) fs))
        \<subseteq> set (map fst fs)" for fs :: "(str \<times> file_entry) list"
    by (induction fs) auto
  have b: "set (map fst (take k fs @ [(output_file, Sink)] @ drop k fs))
        \<subseteq> insert output_file (set (map fst fs))" for fs :: "(str \<times> file_entry) list" and k
  proof -
    have "set (take k fs) \<subseteq> set fs" "set (drop k fs) \<subseteq> set fs"
      by (rule set_take_subset, rule set_drop_subset)
    then show ?thesis by auto
  qed
  have c: "t' = Dir (map (\<lambda>(n, f). if n = output_file then (n, Sink) else (n, f)) (files t))
                 (subdirs t)
         \<or> t' = Dir (take (create_at env) (files t) @ [(output_file, Sink)]
                       @ drop (create_at env) (files t)) (subdirs t)"
    using assms by (simp add: open_sink_def split: option.splits if_splits)
  show "set (map fst (files t')) \<subseteq> insert output_file (set (map fst (files t)))"
  proof (rule disjE [OF c])
    assume "t' = Dir (map (\<lambda>(n, f). if n = output_file then (n, Sink) else (n, f)) (files t))
                 (subdirs t)"
    then have "files t' = map (\<lambda>(n, f). if n = output_file then (n, Sink) else (n, f)) (files t)"
      by simp
    then show ?thesis using a [of "files t"] by (simp only:) blast
  next
    assume "t' = Dir (take (create_at env) (files t) @ [(output_file, Sink)]
                       @ drop (create_at env) (files t)) (subdirs t)"
    then have "files t' = take (create_at env) (files t) @ [(output_file, Sink)]
                       @ drop (create_at env) (files t)"
      by simp
    then show ?thesis using b [of "create_at env" "files t"] by (simp only:)
  qed
  show "subdirs t' = subdirs t"
    using c by auto
qed

lemma all_file_names_open_sink:
  assumes "open_sink env t = Inr t'"
  shows "set (all_file_names t') \<subseteq> insert output_file (set (all_file_names t))"
proof -
  obtain fs ds where t: "t = Dir fs ds" by (cases t)
  obtain fs' ds' where t': "t' = Dir fs' ds'" by (cases t')
  have "set (map fst fs') \<subseteq> insert output_file (set (map fst fs))" "ds' = ds"
    using files_open_sink [OF assms] t t' by simp_all
  then show ?thesis unfolding t t' by auto
qed

lemma run_well_formed:
  assumes P: "\<And>root name. \<not> contains ''node_modules'' root \<Longrightarrow> name \<noteq> ''package-lock.json''
                \<Longrightarrow> Q name \<Longrightarrow> P (header (rel_path root name))"
    and "list_all Q (all_file_names t)" and "Q output_file"
    and "generate_arcade_project_files env t = Inr r"
  shows "well_formed P r"
proof -
  obtain t' where t': "open_sink env t = Inr t'" and r: "r = print_summary (walk env ''.'' t' init_state)"
    using assms(4) by (auto simp: generate_arcade_project_files_def split: sum.splits)
  have "list_all Q (all_file_names t')"
    using all_file_names_open_sink [OF t'] assms(2,3) by (auto simp: list_all_iff)
  then have "well_formed P (walk env ''.'' t' init_state)"
    using walk_well_formed(1) [of Q P init_state t' env "''.''"] P well_formed_init by blast
  then show ?thesis
    by (simp add: r well_formed_def sink_print_summary file_count_print_summary)
qed

subsection \<open>Paths\<close>

lemma contains_sublist: "contains sub xs = sublist sub xs"
  by (induction xs) (auto simp: sublist_Cons_right)

lemma split_on_not_Nil: "split_on c xs \<noteq> []"
  by (induction xs) (auto split: list.splits)

lemma split_on_no_sep: "c \<notin> set xs \<Longrightarrow> split_on c xs = [xs]"
  by (induction xs) auto

lemma split_on_append_sep:
  "c \<notin> set ys \<Longrightarrow> split_on c (xs @ c # ys) = split_on c xs @ [ys]"
  by (induction xs) (auto simp: split_on_no_sep split_on_not_Nil split: list.splits)

lemma split_on_hd_prefix: "prefix (hd (split_on c xs)) xs"
  by (induction xs) (auto split: list.splits)


lemma split_on_parts_sublist: "p \<in> set (split_on c xs) \<Longrightarrow> sublist p xs"
proof (induction xs arbitrary: p)
  case Nil
  then show ?case by simp
next
  case (Cons x xs)
  show ?case
  proof (cases "x = c")
    case True
    then show ?thesis using Cons by (auto simp: sublist_Cons_right)
  next
    case False
    obtain q qs where q: "split_on c xs = q # qs"
      using split_on_not_Nil [of c xs] by (cases "split_on c xs") auto
    have "prefix q xs" using split_on_hd_prefix [of c xs] q by simp
    then have "sublist (x # q) (x # xs)" by (simp add: prefix_imp_sublist)
    moreover have "p \<in> set qs \<Longrightarrow> sublist p (x # xs)"
      using Cons.IH [of p] q by (simp add: sublist_Cons_right)
    ultimately show ?thesis using Cons.prems False q by auto
  qed
qed

lemma sublist_drop_trans:
  assumes "sublist p (drop n xs)"
  shows "sublist p xs"
proof -
  have "sublist (drop n xs) xs" by (rule sublist_drop)
  with assms show ?thesis by (rule sublist_order.order_trans)
qed

lemma rel_path_ok:
  assumes "\<not> contains ''node_modules'' root" and "slash_free name"
  shows "\<not> under_dir ''node_modules'' (rel_path root name)
         \<and> base_name (rel_path root name) = name"
proof (cases "root = ''.''")
  case True
  have "split_on CHR ''/'' name = [name]"
    using assms(2) by (simp add: slash_free_def split_on_no_sep)
  moreover have "rel_path root name = name"
    using True by (simp add: rel_path_def)
  ultimately show ?thesis
    by (simp add: under_dir_def base_name_def)
next
  case False
  define d where "d = drop 2 root"
  have rel: "rel_path root name = d @ CHR ''/'' # name"
    using False by (simp add: rel_path_def d_def)
  have sp: "split_on CHR ''/'' (d @ CHR ''/'' # name) = split_on CHR ''/'' d @ [name]"
    using assms(2) by (simp add: slash_free_def split_on_append_sep)
  have "''node_modules'' \<notin> set (split_on CHR ''/'' d)"
  proof
    assume "''node_modules'' \<in> set (split_on CHR ''/'' d)"
    then have "sublist ''node_modules'' d" by (rule split_on_parts_sublist)
    then have "sublist ''node_modules'' root"
      unfolding d_def by (rule sublist_drop_trans)
    with assms(1) show False by (simp add: contains_sublist)
  qed
  then show ?thesis
    unfolding rel sp under_dir_def base_name_def by simp
qed

subsection \<open>Evaluation\<close>

lemmas run_eval =
  generate_arcade_project_files_def open_sink_def env0_def init_state_def process_file_def
  file_exists_def stable_def rel_path_def path_suffix_def binary_suffixes_def
  try_utf8_def try_latin1_def read_utf8_def read_latin1_def read_bytes_def on_disk_def
  utf8_decode_def write_block_def outfile_write_def print_def output_file_def Let_def
  path_join_def cont_def latin1_decode_def latin1_char_def LF_def CR_def DQ_def
  sink_print_summary file_count_print_summary console_print_summary

lemma run_tree_lock_and_modules:
  "sink (projr (generate_arcade_project_files env0 tree_lock_and_modules))
     = block output_file [] @ block ''a.txt'' ''hi''"
  by (simp add: tree_lock_and_modules_def run_eval block_def)

lemma isr_tree_lock_and_modules:
  "generate_arcade_project_files env0 tree_lock_and_modules
     = Inr (projr (generate_arcade_project_files env0 tree_lock_and_modules))"
  by (simp add: tree_lock_and_modules_def generate_arcade_project_files_def open_sink_def
      env0_def output_file_def)

lemma run_well_formed_any:
  assumes "generate_arcade_project_files env t = Inr r"
  shows "well_formed (\<lambda>_. True) r"
  using assms
  by (intro run_well_formed [where Q = "\<lambda>_. True" and t = t and env = env])
    (simp_all add: list_all_iff)


lemma isr_tree_errors:
  "generate_arcade_project_files env0 tree_errors
     = Inr (projr (generate_arcade_project_files env0 tree_errors))"
  by (simp add: tree_errors_def generate_arcade_project_files_def open_sink_def
      env0_def output_file_def)

lemma run_tree_errors:
  "sink (projr (generate_arcade_project_files env0 tree_errors))
     = block output_file [] @ block ''bad.bin'' [CHR 0xC3, CHR 0xBF, CHR ''A'']"
  by (simp add: tree_errors_def run_eval block_def char_of_def bit_iff_odd)

lemma console_tree_errors:
  "take 4 (console (projr (generate_arcade_project_files env0 tree_errors)))
     = [check_mark @ '' Added: '' @ output_file,
        check_mark @ '' Added (latin-1): bad.bin'',
        ''Error reading denied.txt: [Errno 13] Permission denied'',
        ''Skipping unreadable file: flaky.txt'']"
  by (simp add: tree_errors_def run_eval)

subsection \<open>Opening the sink again\<close>

lemma open_sink_cases:
  assumes "open_sink env t = Inr t'"
  shows "open_error env = None" and "output_file \<notin> set (map fst (subdirs t))"
    and "subdirs t' = subdirs t"
    and "files t' = map (\<lambda>(n, f). if n = output_file then (n, Sink) else (n, f)) (files t)
         \<or> (output_file \<notin> set (map fst (files t))
            \<and> files t' = take (create_at env) (files t) @ [(output_file, Sink)]
                       @ drop (create_at env) (files t))"
    and "output_file \<in> set (map fst (files t'))"
proof -
  show a: "open_error env = None"
    using assms by (simp add: open_sink_def split: option.splits)
  show b: "output_file \<notin> set (map fst (subdirs t))"
    using assms a by (simp add: open_sink_def split: if_splits)
  show "subdirs t' = subdirs t"
    using files_open_sink(2) [OF assms] .
  have c: "t' = (if output_file \<in> set (map fst (files t))
          then Dir (map (\<lambda>(n, f). if n = output_file then (n, Sink) else (n, f)) (files t))
                        (subdirs t)
          else Dir (take (create_at env) (files t) @ [(output_file, Sink)]
                          @ drop (create_at env) (files t))
                        (subdirs t))"
    using assms a b by (auto simp: open_sink_def split: if_splits)
  show "files t' = map (\<lambda>(n, f). if n = output_file then (n, Sink) else (n, f)) (files t)
         \<or> (output_file \<notin> set (map fst (files t))
            \<and> files t' = take (create_at env) (files t) @ [(output_file, Sink)]
                       @ drop (create_at env) (files t))"
    by (simp add: c)
  have names: "map fst (map (\<lambda>(n, f). if n = output_file then (n, Sink) else (n, f)) fs)
      = map fst fs" for fs :: "(str \<times> file_entry) list"
    by (induction fs) auto
  show "output_file \<in> set (map fst (files t'))"
  proof (cases "output_file \<in> set (map fst (files t))")
    case True
    then have "files t' = map (\<lambda>(n, f). if n = output_file then (n, Sink) else (n, f)) (files t)"
      using c by simp
    then have "map fst (files t') = map fst (files t)"
      by (simp only: names)
    then show ?thesis using True by (simp only:)
  next
    case False
    then have "files t' = take (create_at env) (files t) @ [(output_file, Sink)]
                       @ drop (create_at env) (files t)"
      using c by simp
    then show ?thesis by simp
  qed
qed

lemma sink_entries_open_sink:
  assumes "open_sink env t = Inr t'" and "x \<in> set (files t')" and "fst x = output_file"
  shows "snd x = Sink"
proof (rule disjE [OF open_sink_cases(4) [OF assms(1)]])
  assume "files t' = map (\<lambda>(n, f). if n = output_file then (n, Sink) else (n, f)) (files t)"
  then show ?thesis using assms(2,3) by (auto split: if_splits)
next
  assume a: "output_file \<notin> set (map fst (files t))
            \<and> files t' = take (create_at env) (files t) @ [(output_file, Sink)]
                       @ drop (create_at env) (files t)"
  then have "x = (output_file, Sink) \<or> x \<in> set (files t)"
    using assms(2) by (auto dest: in_set_takeD in_set_dropD)
  moreover have "fst x \<in> set (map fst (files t))" if "x \<in> set (files t)"
    using that by simp
  ultimately show ?thesis using a assms(3) by auto
qed

lemma reopen_entries:
  assumes "\<And>x. x \<in> set fs \<Longrightarrow> fst x = output_file \<Longrightarrow> snd x = Sink"
  shows "map (\<lambda>(n, f). if n = output_file then (n, Sink) else (n, f))
           (map (\<lambda>(n, f). if n = output_file then (n, stable out) else (n, f)) fs) = fs"
proof -
  have "(case (case x of (n, f) \<Rightarrow> if n = output_file then (n, stable out) else (n, f)) of
           (n, f) \<Rightarrow> if n = output_file then (n, Sink) else (n, f)) = x"
    if "x \<in> set fs" for x
    using assms [OF that] by (cases x) auto
  then show ?thesis
    by (simp add: map_idI)
qed

lemma open_sink_tree_after:
  assumes "open_sink env t = Inr t1"
  shows "open_sink env (tree_after t1 out) = Inr t1"
proof -
  let ?h = "\<lambda>(n, f). if n = output_file then (n, stable out) else (n, f)"
  have names: "map fst (map ?h fs) = map fst fs" for fs :: "(str \<times> file_entry) list"
    by (induction fs) auto
  have f: "files (tree_after t1 out) = map ?h (files t1)"
    and d: "subdirs (tree_after t1 out) = subdirs t1"
    by (simp_all add: tree_after_def)
  have "map fst (files (tree_after t1 out)) = map fst (files t1)"
    by (simp only: f names)
  then have in_files: "output_file \<in> set (map fst (files (tree_after t1 out)))"
    using open_sink_cases(5) [OF assms] by (simp only:)
  have not_dir: "output_file \<notin> set (map fst (subdirs (tree_after t1 out)))"
    using open_sink_cases(2,3) [OF assms] by (simp add: d)
  have restored: "map (\<lambda>(n, f). if n = output_file then (n, Sink) else (n, f)) (map ?h (files t1))
       = files t1"
    using sink_entries_open_sink [OF assms] by (intro reopen_entries)
  have "open_sink env (tree_after t1 out)
      = Inr (Dir (map (\<lambda>(n, f). if n = output_file then (n, Sink) else (n, f))
                   (files (tree_after t1 out)))
               (subdirs (tree_after t1 out)))"
    using open_sink_cases(1) [OF assms] in_files not_dir
    by (simp add: open_sink_def)
  also have "\<dots> = Inr (Dir (files t1) (subdirs t1))"
    by (simp only: f d restored)
  finally show ?thesis by simp
qed

lemma open_tree_lock_and_modules:
  "open_sink env0 tree_lock_and_modules
     = Inr (Dir [(output_file, Sink), (''package-lock.json'', stable ''{}''), (''a.txt'', stable ''hi'')]
         [(''node_modules'', Dir [(''b.txt'', stable ''b'')] [])])"
  by (simp add: open_sink_def env0_def tree_lock_and_modules_def output_file_def)

subsection \<open>Directories that are skipped\<close>







subsection \<open>Decoding and newlines\<close>













subsection \<open>One readable file\<close>









section \<open>The claims\<close>

subsection \<open>C1: the empty working directory\<close>

text \<open>
  C1, as amended. The claim says that a run over an empty root writes zero blocks and
  reports 0 files. The output file is created in the root before the walk lists it, so
  the walk finds it, reads it (empty) and emits a block for it: whenever the sink
  opens, the output is exactly the one block of \<open>arcade_project_complete.txt\<close> with
  empty content, the counter is 1 and the summary reports 1.
\<close>

theorem empty_root_one_block:
  "open_error env = None \<Longrightarrow>
   \<exists>r. generate_arcade_project_files env (Dir [] []) = Inr r
     \<and> sink r = block output_file []
     \<and> blocks_of (sink r) = [(header output_file, [])]
     \<and> file_count r = 1
     \<and> total_line 1 \<in> set (console r)"
  by (simp add: generate_arcade_project_files_def open_sink_empty_root process_sink_first
      sink_print_summary file_count_print_summary console_print_summary
      print_def blocks_of_block total_line_in_summary)

theorem empty_root_one_block_witness:
  "open_error env0 = None \<and>
   (\<exists>r. generate_arcade_project_files env0 (Dir [] []) = Inr r
     \<and> sink r = block output_file []
     \<and> blocks_of (sink r) = [(header output_file, [])]
     \<and> file_count r = 1
     \<and> total_line 1 \<in> set (console r))"
  using empty_root_one_block [of env0] by (simp add: env0_def)

text \<open>C1 as stated fails: the run over the empty root returns with one block and count 1.\<close>

theorem empty_root_counterexample:
  "\<not> isl (generate_arcade_project_files env0 (Dir [] []))
   \<and> length (blocks_of (sink (projr (generate_arcade_project_files env0 (Dir [] []))))) = 1
   \<and> file_count (projr (generate_arcade_project_files env0 (Dir [] []))) = 1"
  by (simp add: generate_arcade_project_files_def open_sink_empty_root open_error_env0
      process_sink_first sink_print_summary file_count_print_summary
      print_def blocks_of_block)

subsection \<open>C4: nothing from node_modules, no package-lock.json\<close>

text \<open>
  C4. For every directory tree (whose file names are entry names, free of the path
  separator), every block of the output of a run has a header \<open>My p:\<close> whose path
  \<open>p\<close> does not lie under a directory named \<open>node_modules\<close> and whose base name is
  not \<open>package-lock.json\<close>.
\<close>

theorem blocks_avoid_node_modules_and_lock:
  assumes "list_all slash_free (all_file_names t)"
    and "generate_arcade_project_files env t = Inr r"
    and "(h, c) \<in> set (blocks_of (sink r))"
  shows "\<exists>p. h = header p \<and> \<not> under_dir ''node_modules'' p
             \<and> base_name p \<noteq> ''package-lock.json''"
proof -
  let ?P = "\<lambda>h. \<exists>p. h = header p \<and> \<not> under_dir ''node_modules'' p
             \<and> base_name p \<noteq> ''package-lock.json''"
  have "slash_free output_file"
    by (simp add: slash_free_def output_file_def)
  then have "well_formed ?P r"
    using assms(1,2) rel_path_ok
    by (intro run_well_formed [where Q = slash_free and t = t and env = env]) auto
  then have "\<forall>b \<in> set (blocks_of (sink r)). ?P (fst b)"
    by (simp add: well_formed_def list_all_iff)
  from this assms(3) have "?P (fst (h, c))" by (rule bspec)
  then show ?thesis by simp
qed

theorem blocks_avoid_witness:
  "list_all slash_free (all_file_names tree_lock_and_modules)
   \<and> blocks_of (sink (projr (generate_arcade_project_files env0 tree_lock_and_modules)))
       = [(header output_file, []), (header ''a.txt'', ''hi'')]
   \<and> (\<exists>p. header ''a.txt'' = header p \<and> \<not> under_dir ''node_modules'' p
             \<and> base_name p \<noteq> ''package-lock.json'')"
proof -
  have a: "list_all slash_free (all_file_names tree_lock_and_modules)"
    by (simp add: tree_lock_and_modules_def slash_free_def)
  have b: "blocks_of (sink (projr (generate_arcade_project_files env0 tree_lock_and_modules)))
       = [(header output_file, []), (header ''a.txt'', ''hi'')]"
    by (simp add: run_tree_lock_and_modules block_def)
  have c: "(header ''a.txt'', ''hi'')
     \<in> set (blocks_of (sink (projr (generate_arcade_project_files env0 tree_lock_and_modules))))"
    by (simp add: b)
  show ?thesis
    using a b blocks_avoid_node_modules_and_lock [OF a isr_tree_lock_and_modules c] by simp
qed

subsection \<open>C8: errors on single files are contained\<close>



subsection \<open>C9: the counter and the blocks\<close>



subsection \<open>C10: only whole blocks\<close>

text \<open>
  C10. A file is read and decoded before anything of its block is written: processing
  one file either leaves the sink as it is or appends one complete block, also when
  the UTF-8 attempt fails and the Latin-1 attempt succeeds; so the output of every run
  that returns is a concatenation of complete blocks.
\<close>

theorem output_is_whole_blocks:
  "(generate_arcade_project_files env t = Inr r \<longrightarrow> sink r = render (blocks_of (sink r)))
   \<and> (sink (process_file env root name f s) = sink s
      \<or> (\<exists>c. sink (process_file env root name f s) = sink s @ block (rel_path root name) c))"
proof -
  have "sink r = render (blocks_of (sink r))" if "generate_arcade_project_files env t = Inr r"
    using run_well_formed_any [OF that] by (simp add: well_formed_def)
  moreover have "sink (process_file env root name f s) = sink s
      \<or> (\<exists>c. sink (process_file env root name f s) = sink s @ block (rel_path root name) c)"
    using process_file_effect [of env root name f s] by (auto simp: print_def)
  ultimately show ?thesis by blast
qed


theorem output_is_whole_blocks_witness:
  "generate_arcade_project_files env0 tree_errors
     = Inr (projr (generate_arcade_project_files env0 tree_errors))
   \<and> sink (projr (generate_arcade_project_files env0 tree_errors))
       = render [(header output_file, []), (header ''bad.bin'', [CHR 0xC3, CHR 0xBF, CHR ''A''])]
   \<and> sink (process_file env0 ''.'' ''flaky.txt''
         (Regular True (Inr [CHR 0xFF]) (Inl ''[Errno 5] Input/output error'')) init_state)
       = sink init_state"
proof -
  let ?r = "projr (generate_arcade_project_files env0 tree_errors)"
  have "sink ?r = render (blocks_of (sink ?r))"
    using output_is_whole_blocks [of env0 tree_errors ?r] isr_tree_errors by blast
  moreover have "blocks_of (sink ?r)
      = [(header output_file, []), (header ''bad.bin'', [CHR 0xC3, CHR 0xBF, CHR ''A''])]"
    by (simp add: run_tree_errors block_def)
  moreover have "sink (process_file env0 ''.'' ''flaky.txt''
         (Regular True (Inr [CHR 0xFF]) (Inl ''[Errno 5] Input/output error'')) init_state)
       = sink init_state"
    by (simp add: run_eval)
  ultimately show ?thesis using isr_tree_errors by simp
qed

subsection \<open>C2: running twice\<close>

text \<open>
  C2. Let a run over the tree \<open>t\<close> return \<open>r\<close>, having opened its sink in \<open>t\<close> as
  \<open>t1\<close>. The next run finds the same tree with the output file holding the bytes the
  first run wrote; all other files are unchanged. In the same environment it returns
  the same state: the same writes, hence a byte-identical output file, the same count
  and the same console.
\<close>

theorem rerun_identical:
  assumes "open_sink env t = Inr t1" and "generate_arcade_project_files env t = Inr r"
  shows "generate_arcade_project_files env (tree_after t1 (output_bytes r)) = Inr r"
  using assms open_sink_tree_after [OF assms(1), of "output_bytes r"]
  by (simp add: generate_arcade_project_files_def)

theorem rerun_identical_witness:
  "generate_arcade_project_files env0
     (Dir [(output_file, stable (output_bytes (projr (generate_arcade_project_files env0 tree_lock_and_modules)))),
           (''package-lock.json'', stable ''{}''), (''a.txt'', stable ''hi'')]
        [(''node_modules'', Dir [(''b.txt'', stable ''b'')] [])])
   = generate_arcade_project_files env0 tree_lock_and_modules
   \<and> output_bytes (projr (generate_arcade_project_files env0 tree_lock_and_modules))
     = ''My arcade_project_complete.txt:'' @ [LF, LF, DQ, LF, LF, DQ, LF, LF]
       @ ''My a.txt:'' @ [LF, LF, DQ, LF] @ ''hi'' @ [LF, DQ, LF, LF]"
proof -
  have "output_bytes (projr (generate_arcade_project_files env0 tree_lock_and_modules))
     = ''My arcade_project_complete.txt:'' @ [LF, LF, DQ, LF, LF, DQ, LF, LF]
       @ ''My a.txt:'' @ [LF, LF, DQ, LF] @ ''hi'' @ [LF, DQ, LF, LF]"
    by (simp add: output_bytes_def run_tree_lock_and_modules block_def header_def
        quote_open_def quote_close_def output_file_def)
  then show ?thesis
    using rerun_identical [OF open_tree_lock_and_modules isr_tree_lock_and_modules]
      isr_tree_lock_and_modules
    by (simp add: tree_after_def output_file_def)
qed

subsection \<open>C3: which directories are left out\<close>




subsection \<open>C5: the block of a readable text file\<close>




subsection \<open>C6: the suffix rule\<close>



subsection \<open>C7: the Latin-1 fallback\<close>




end
